theory Spec2Isabelle
  imports Complex_Main
begin

section \<open>JSON values as the Python \<open>json\<close> module builds them\<close>

text \<open>
  \<open>json.load\<close> returns a tree of \<open>dict\<close>, \<open>list\<close>, \<open>str\<close>, \<open>int\<close>, \<open>float\<close>,
  \<open>bool\<close> and \<open>None\<close>.  Python integers are unbounded, so \<open>JInt\<close> carries an \<open>int\<close>.
  A Python \<open>float\<close> is an IEEE double; the transform never inspects one, it only
  creates them with \<open>float(v)\<close>, whose results are integral, so the finite ones are
  carried by their rational value and the special values are constructors of their own.
  A \<open>dict\<close> keeps its entries in insertion order and its keys are distinct; it is an
  association list.
\<close>

datatype pyfloat = Finite rat | NegZero | PosInf | NegInf | NaN

datatype json =
    JNull
  | JBool bool
  | JInt int
  | JFloat pyfloat
  | JString string
  | JArray "json list"
  | JObject "(string \<times> json) list"

datatype error =
    IndexError
  | FileNotFoundError string
  | PermissionError string
  | JSONDecodeError string
  | OverflowError
  | RecursionError
  | OSError string

section \<open>The builtin conversion \<open>float(v)\<close>\<close>

text \<open>
  \<open>float(v)\<close> of an integer is the double nearest to \<open>v\<close>, ties going to the even
  significand of 53 bits, and raises \<open>OverflowError\<close> when that rounding reaches
  \<open>2 ^ 1024\<close>.  \<open>bit_length n\<close> is Python's \<open>n.bit_length()\<close>.
\<close>

fun bit_length :: "nat \<Rightarrow> nat" where
  "bit_length n = (if n = 0 then 0 else Suc (bit_length (n div 2)))"

declare bit_length.simps [simp del]

definition round_to_double :: "nat \<Rightarrow> nat" where
  "round_to_double n =
     (if bit_length n \<le> 53 then n
      else let s = bit_length n - 53;
               q = n div 2 ^ s;
               r = n mod 2 ^ s;
               h = 2 ^ (s - 1)
           in (if h < r \<or> (r = h \<and> odd q) then q + 1 else q) * 2 ^ s)"

definition float_of_int :: "int \<Rightarrow> error + pyfloat" where
  "float_of_int v =
     (let m = round_to_double (nat \<bar>v\<bar>)
      in if 2 ^ 1024 \<le> m then Inl OverflowError
         else Inr (Finite (of_int (sgn v * int m))))"

text \<open>
  \<open>isinstance(v, int)\<close>: \<open>bool\<close> is a subclass of \<open>int\<close> in Python, so the test
  holds of \<open>True\<close> and \<open>False\<close> as well as of the integers.
\<close>

fun isinstance_int :: "json \<Rightarrow> bool" where
  "isinstance_int (JInt i) = True"
| "isinstance_int (JBool b) = True"
| "isinstance_int v = False"

text \<open>
  \<open>float(v)\<close> for a value that passed the test; \<open>float(True)\<close> is \<open>1.0\<close> and
  \<open>float(False)\<close> is \<open>0.0\<close>.  The source calls it on no other value, and the last
  equation is never reached.
\<close>

fun float_of :: "json \<Rightarrow> error + json" where
  "float_of (JInt i) =
     (case float_of_int i of Inl e \<Rightarrow> Inl e | Inr x \<Rightarrow> Inr (JFloat x))"
| "float_of (JBool b) = Inr (JFloat (Finite (if b then 1 else 0)))"
| "float_of v = Inr v"

section \<open>The transform \<open>floatify\<close>\<close>

definition target_keys :: "string list" where
  "target_keys = [''ip'', ''op'', ''st'', ''fr'', ''w'', ''h'']"

text \<open>
  The source mutates the tree in place and returns nothing; the model returns the tree
  as it stands after the call, or the exception that left the call.  The two \<open>for\<close>
  loops are \<open>floatify_items\<close> (over \<open>obj.items()\<close>, in insertion order) and
  \<open>floatify_elems\<close> (over the list).  Since the keys of a \<open>dict\<close> are distinct,
  \<open>obj[k] = float(v)\<close> replaces the value of the entry being visited and nothing else.
\<close>

fun floatify :: "json \<Rightarrow> error + json"
  and floatify_items :: "(string \<times> json) list \<Rightarrow> error + (string \<times> json) list"
  and floatify_elems :: "json list \<Rightarrow> error + json list"
where
  "floatify (JObject kvs) =
     (case floatify_items kvs of Inl e \<Rightarrow> Inl e | Inr kvs' \<Rightarrow> Inr (JObject kvs'))"
| "floatify (JArray xs) =
     (case floatify_elems xs of Inl e \<Rightarrow> Inl e | Inr xs' \<Rightarrow> Inr (JArray xs'))"
| "floatify JNull = Inr JNull"
| "floatify (JBool b) = Inr (JBool b)"
| "floatify (JInt i) = Inr (JInt i)"
| "floatify (JFloat x) = Inr (JFloat x)"
| "floatify (JString s) = Inr (JString s)"
| "floatify_items [] = Inr []"
| "floatify_items ((k, v) # kvs) =
     (case (if k \<in> set target_keys \<and> isinstance_int v then float_of v else floatify v) of
        Inl e \<Rightarrow> Inl e
      | Inr v' \<Rightarrow>
          (case floatify_items kvs of
             Inl e \<Rightarrow> Inl e
           | Inr kvs' \<Rightarrow> Inr ((k, v') # kvs')))"
| "floatify_elems [] = Inr []"
| "floatify_elems (x # xs) =
     (case floatify x of
        Inl e \<Rightarrow> Inl e
      | Inr x' \<Rightarrow>
          (case floatify_elems xs of
             Inl e \<Rightarrow> Inl e
           | Inr xs' \<Rightarrow> Inr (x' # xs')))"

text \<open>
  The interpreter bounds the nesting of calls: every call of \<open>floatify\<close>, also on a
  leaf, takes a frame, and a call made when no frame is left raises \<open>RecursionError\<close>
  in place of running.  \<open>floatify_limited n\<close> is \<open>floatify\<close> run with \<open>n\<close> frames
  left; \<open>floatify\<close> above is the same function with no such bound.
\<close>

fun floatify_limited :: "nat \<Rightarrow> json \<Rightarrow> error + json"
  and floatify_items_limited ::
    "nat \<Rightarrow> (string \<times> json) list \<Rightarrow> error + (string \<times> json) list"
  and floatify_elems_limited :: "nat \<Rightarrow> json list \<Rightarrow> error + json list"
where
  "floatify_limited 0 v = Inl RecursionError"
| "floatify_limited (Suc n) (JObject kvs) =
     (case floatify_items_limited n kvs of Inl e \<Rightarrow> Inl e | Inr kvs' \<Rightarrow> Inr (JObject kvs'))"
| "floatify_limited (Suc n) (JArray xs) =
     (case floatify_elems_limited n xs of Inl e \<Rightarrow> Inl e | Inr xs' \<Rightarrow> Inr (JArray xs'))"
| "floatify_limited (Suc n) JNull = Inr JNull"
| "floatify_limited (Suc n) (JBool b) = Inr (JBool b)"
| "floatify_limited (Suc n) (JInt i) = Inr (JInt i)"
| "floatify_limited (Suc n) (JFloat x) = Inr (JFloat x)"
| "floatify_limited (Suc n) (JString s) = Inr (JString s)"
| "floatify_items_limited n [] = Inr []"
| "floatify_items_limited n ((k, v) # kvs) =
     (case (if k \<in> set target_keys \<and> isinstance_int v then float_of v
            else floatify_limited n v) of
        Inl e \<Rightarrow> Inl e
      | Inr v' \<Rightarrow>
          (case floatify_items_limited n kvs of
             Inl e \<Rightarrow> Inl e
           | Inr kvs' \<Rightarrow> Inr ((k, v') # kvs')))"
| "floatify_elems_limited n [] = Inr []"
| "floatify_elems_limited n (x # xs) =
     (case floatify_limited n x of
        Inl e \<Rightarrow> Inl e
      | Inr x' \<Rightarrow>
          (case floatify_elems_limited n xs of
             Inl e \<Rightarrow> Inl e
           | Inr xs' \<Rightarrow> Inr (x' # xs')))"

section \<open>The driver: load, transform, save\<close>

text \<open>
  The file system maps a path to a file; a file has its text and the two permissions the
  script depends on.  \<open>space\<close> is the number of characters the device still takes
  (\<open>None\<close>: no limit), so that a write can fail part-way.
\<close>

record disk_file =
  content :: string
  readable :: bool
  writable :: bool

type_synonym filesystem = "string \<Rightarrow> disk_file option"

record outcome =
  files :: filesystem
  stdout :: "string list"
  exit_code :: nat

text \<open>
  \<open>str(e)\<close>, the text that \<open>print(e)\<close> writes.  An error of \<open>open\<close> names the path
  as the builtin \<open>repr\<close> prints it, which is a parameter here.
\<close>

fun describe :: "(string \<Rightarrow> string) \<Rightarrow> error \<Rightarrow> string" where
  "describe repr IndexError = ''list index out of range''"
| "describe repr (FileNotFoundError p) = ''[Errno 2] No such file or directory: '' @ repr p"
| "describe repr (PermissionError p) = ''[Errno 13] Permission denied: '' @ repr p"
| "describe repr (JSONDecodeError m) = m"
| "describe repr OverflowError = ''int too large to convert to float''"
| "describe repr RecursionError = ''maximum recursion depth exceeded''"
| "describe repr (OSError m) = m"

text \<open>\<open>sys.argv[1]\<close>: an \<open>IndexError\<close> when the script is run without an argument.\<close>

definition argv1 :: "string list \<Rightarrow> error + string" where
  "argv1 argv = (if 1 < length argv then Inr (argv ! 1) else Inl IndexError)"

text \<open>\<open>open(path, 'r')\<close> followed by reading the whole file.\<close>

definition open_read :: "filesystem \<Rightarrow> string \<Rightarrow> error + string" where
  "open_read fs path =
     (case fs path of
        None \<Rightarrow> Inl (FileNotFoundError path)
      | Some f \<Rightarrow> if readable f then Inr (content f) else Inl (PermissionError path))"

text \<open>\<open>open(path, 'w')\<close>: creates the file or truncates it, before anything is written.\<close>

definition open_write :: "filesystem \<Rightarrow> string \<Rightarrow> error + filesystem" where
  "open_write fs path =
     (case fs path of
        None \<Rightarrow> Inr (fs(path \<mapsto> \<lparr>content = [], readable = True, writable = True\<rparr>))
      | Some f \<Rightarrow>
          if writable f then Inr (fs(path \<mapsto> f\<lparr>content := []\<rparr>))
          else Inl (PermissionError path))"

text \<open>Writing text to the file just opened; what fits is written before the failure.\<close>

definition write_text ::
  "nat option \<Rightarrow> filesystem \<Rightarrow> string \<Rightarrow> string \<Rightarrow> filesystem \<times> error option" where
  "write_text space fs path s =
     (case fs path of
        None \<Rightarrow> (fs, Some (FileNotFoundError path))
      | Some f \<Rightarrow>
          (case space of
             None \<Rightarrow> (fs(path \<mapsto> f\<lparr>content := s\<rparr>), None)
           | Some c \<Rightarrow>
               if length s \<le> c then (fs(path \<mapsto> f\<lparr>content := s\<rparr>), None)
               else (fs(path \<mapsto> f\<lparr>content := take c s\<rparr>),
                     Some (OSError ''[Errno 28] No space left on device''))))"

text \<open>
  The body of the \<open>try\<close> block.  \<open>loads\<close> stands for \<open>json.load\<close> on the text read
  and \<open>dumps\<close> for \<open>json.dump(data, f, indent=4)\<close>; both belong to the \<open>json\<close>
  library and are parameters.  \<open>frames\<close> is the number of nested calls the
  interpreter's recursion limit still allows where the script calls \<open>floatify(data)\<close>.
  The result is the file system as the body leaves it, and either the exception that
  left the body or the line it printed.
\<close>

definition try_body ::
  "nat \<Rightarrow> (string \<Rightarrow> error + json) \<Rightarrow> (json \<Rightarrow> string) \<Rightarrow> nat option \<Rightarrow>
   string list \<Rightarrow> filesystem \<Rightarrow> filesystem \<times> (error + string)" where
  "try_body frames loads dumps space argv fs =
     (case argv1 argv of
        Inl e \<Rightarrow> (fs, Inl e)
      | Inr path \<Rightarrow>
     (case open_read fs path of
        Inl e \<Rightarrow> (fs, Inl e)
      | Inr txt \<Rightarrow>
     (case loads txt of
        Inl e \<Rightarrow> (fs, Inl e)
      | Inr data \<Rightarrow>
     (case floatify_limited frames data of
        Inl e \<Rightarrow> (fs, Inl e)
      | Inr data' \<Rightarrow>
     (case open_write fs path of
        Inl e \<Rightarrow> (fs, Inl e)
      | Inr fs1 \<Rightarrow>
     (case write_text space fs1 path (dumps data') of
        (fs2, Some e) \<Rightarrow> (fs2, Inl e)
      | (fs2, None) \<Rightarrow> (fs2, Inr (''Processed '' @ path))))))))"

text \<open>
  The whole script: \<open>except Exception as e: print(e)\<close> turns the exception into a
  printed line, and the interpreter then ends with status 0.
\<close>

definition main ::
  "(string \<Rightarrow> string) \<Rightarrow> nat \<Rightarrow> (string \<Rightarrow> error + json) \<Rightarrow> (json \<Rightarrow> string) \<Rightarrow>
   nat option \<Rightarrow> string list \<Rightarrow> filesystem \<Rightarrow> outcome" where
  "main repr frames loads dumps space argv fs =
     (case try_body frames loads dumps space argv fs of
        (fs', Inl e) \<Rightarrow> \<lparr>files = fs', stdout = [describe repr e], exit_code = 0\<rparr>
      | (fs', Inr line) \<Rightarrow> \<lparr>files = fs', stdout = [line], exit_code = 0\<rparr>)"

section \<open>Vocabulary of the specification\<close>

text \<open>
  A position in a document is reached by a path of object keys and array indices.
  \<open>lookup_path d p\<close> is the value at path \<open>p\<close> of \<open>d\<close>, if there is one.
\<close>

datatype step = Key string | Index nat

fun lookup_path :: "json \<Rightarrow> step list \<Rightarrow> json option" where
  "lookup_path v [] = Some v"
| "lookup_path (JObject kvs) (Key k # p) =
     (case map_of kvs k of None \<Rightarrow> None | Some v \<Rightarrow> lookup_path v p)"
| "lookup_path (JArray xs) (Index i # p) =
     (if i < length xs then lookup_path (xs ! i) p else None)"
| "lookup_path v (s # p) = None"

fun is_container :: "json \<Rightarrow> bool" where
  "is_container (JObject kvs) = True"
| "is_container (JArray xs) = True"
| "is_container v = False"

text \<open>
  The shape of a document: its objects with their keys in order, its arrays with their
  lengths, and the nesting; every other value is a leaf.
\<close>

datatype skeleton = Leaf | Arr "skeleton list" | Obj "(string \<times> skeleton) list"

fun shape :: "json \<Rightarrow> skeleton"
  and shape_items :: "(string \<times> json) list \<Rightarrow> (string \<times> skeleton) list"
  and shape_elems :: "json list \<Rightarrow> skeleton list"
where
  "shape (JObject kvs) = Obj (shape_items kvs)"
| "shape (JArray xs) = Arr (shape_elems xs)"
| "shape JNull = Leaf"
| "shape (JBool b) = Leaf"
| "shape (JInt i) = Leaf"
| "shape (JFloat x) = Leaf"
| "shape (JString s) = Leaf"
| "shape_items [] = []"
| "shape_items ((k, v) # kvs) = (k, shape v) # shape_items kvs"
| "shape_elems [] = []"
| "shape_elems (x # xs) = shape x # shape_elems xs"

text \<open>
  \<open>converted_only d d'\<close>: the document \<open>d'\<close> is \<open>d\<close> but for its integers under
  target keys, each replaced by its \<open>float\<close>.  Every other value is the same in both,
  booleans under target keys apart, of which it only says that a leaf stands there.
\<close>

fun converted_only :: "json \<Rightarrow> json \<Rightarrow> bool"
  and converted_only_items :: "(string \<times> json) list \<Rightarrow> (string \<times> json) list \<Rightarrow> bool"
  and converted_only_elems :: "json list \<Rightarrow> json list \<Rightarrow> bool"
where
  "converted_only (JObject kvs) d' =
     (case d' of JObject kvs' \<Rightarrow> converted_only_items kvs kvs' | _ \<Rightarrow> False)"
| "converted_only (JArray xs) d' =
     (case d' of JArray xs' \<Rightarrow> converted_only_elems xs xs' | _ \<Rightarrow> False)"
| "converted_only JNull d' = (d' = JNull)"
| "converted_only (JBool b) d' = (d' = JBool b)"
| "converted_only (JInt i) d' = (d' = JInt i)"
| "converted_only (JFloat x) d' = (d' = JFloat x)"
| "converted_only (JString s) d' = (d' = JString s)"
| "converted_only_items [] kvs' = (kvs' = [])"
| "converted_only_items ((k, v) # kvs) kvs' =
     (case kvs' of
        [] \<Rightarrow> False
      | (k', v') # rest \<Rightarrow>
          k' = k \<and>
          (if k \<in> set target_keys
           then (case v of
                   JInt i \<Rightarrow> (case v' of JFloat x \<Rightarrow> float_of_int i = Inr x | _ \<Rightarrow> False)
                 | JBool b \<Rightarrow> \<not> is_container v'
                 | _ \<Rightarrow> converted_only v v')
           else converted_only v v') \<and>
          converted_only_items kvs rest)"
| "converted_only_elems [] xs' = (xs' = [])"
| "converted_only_elems (x # xs) xs' =
     (case xs' of [] \<Rightarrow> False | x' # rest \<Rightarrow> converted_only x x' \<and> converted_only_elems xs rest)"

text \<open>All the object keys of a document, at every depth.\<close>

fun keys_of :: "json \<Rightarrow> string list"
  and keys_of_items :: "(string \<times> json) list \<Rightarrow> string list"
  and keys_of_elems :: "json list \<Rightarrow> string list"
where
  "keys_of (JObject kvs) = keys_of_items kvs"
| "keys_of (JArray xs) = keys_of_elems xs"
| "keys_of JNull = []"
| "keys_of (JBool b) = []"
| "keys_of (JInt i) = []"
| "keys_of (JFloat x) = []"
| "keys_of (JString s) = []"
| "keys_of_items [] = []"
| "keys_of_items ((k, v) # kvs) = k # keys_of v @ keys_of_items kvs"
| "keys_of_elems [] = []"
| "keys_of_elems (x # xs) = keys_of x @ keys_of_elems xs"


text \<open>The value that the transform leaves at a position, from the value it found there.\<close>

definition convert_at :: "step list \<Rightarrow> json \<Rightarrow> error + json" where
  "convert_at p v =
     (if p \<noteq> [] \<and> (\<exists>k \<in> set target_keys. last p = Key k) \<and> isinstance_int v
      then float_of v else floatify v)"

text \<open>
  The number of frames a call of \<open>floatify\<close> needs: one for the call itself, and what
  the deepest call inside it needs.  A value that is converted in place is not called on.
\<close>

fun call_depth :: "json \<Rightarrow> nat"
  and call_depth_items :: "(string \<times> json) list \<Rightarrow> nat"
  and call_depth_elems :: "json list \<Rightarrow> nat"
where
  "call_depth (JObject kvs) = Suc (call_depth_items kvs)"
| "call_depth (JArray xs) = Suc (call_depth_elems xs)"
| "call_depth JNull = 1"
| "call_depth (JBool b) = 1"
| "call_depth (JInt i) = 1"
| "call_depth (JFloat x) = 1"
| "call_depth (JString s) = 1"
| "call_depth_items [] = 0"
| "call_depth_items ((k, v) # kvs) =
     max (if k \<in> set target_keys \<and> isinstance_int v then 0 else call_depth v)
         (call_depth_items kvs)"
| "call_depth_elems [] = 0"
| "call_depth_elems (x # xs) = max (call_depth x) (call_depth_elems xs)"



section \<open>The conversion to a double\<close>

text \<open>\<open>bit_length n\<close> is the number of binary digits of \<open>n\<close>.\<close>

lemma bit_length_le_iff: "bit_length n \<le> k \<longleftrightarrow> n < 2 ^ k"
proof (induction n arbitrary: k rule: bit_length.induct)
  case (1 n)
  show ?case
  proof (cases "n = 0")
    case True
    then show ?thesis by (simp add: bit_length.simps)
  next
    case False
    show ?thesis
    proof (cases k)
      case 0
      with False show ?thesis by (simp add: bit_length.simps [of n])
    next
      case (Suc j)
      have "bit_length n \<le> Suc j \<longleftrightarrow> bit_length (n div 2) \<le> j"
        using False by (simp add: bit_length.simps [of n])
      also have "\<dots> \<longleftrightarrow> n div 2 < 2 ^ j"
        using "1.IH" [OF False] .
      also have "\<dots> \<longleftrightarrow> n < 2 ^ Suc j"
        by auto
      finally show ?thesis using Suc by simp
    qed
  qed
qed

lemma bit_length_gt_iff: "k < bit_length n \<longleftrightarrow> 2 ^ k \<le> n"
  using bit_length_le_iff [of n k] by auto

lemma round_to_double_exact: "n \<le> 2 ^ 53 \<Longrightarrow> round_to_double n = n"
proof (cases "n < 2 ^ 53")
  case True
  then show ?thesis by (simp add: round_to_double_def bit_length_le_iff)
next
  case False
  assume "n \<le> 2 ^ 53"
  with False have n: "n = 2 ^ 53" by simp
  have b: "bit_length n = 54"
  proof -
    have "bit_length n \<le> 54" using n by (simp add: bit_length_le_iff)
    moreover have "53 < bit_length n" using n by (simp add: bit_length_gt_iff)
    ultimately show ?thesis by simp
  qed
  show ?thesis unfolding round_to_double_def b by (simp add: n Let_def)
qed





lemma float_of_int_exact:
  assumes "\<bar>v\<bar> \<le> 2 ^ 53"
  shows "float_of_int v = Inr (Finite (of_int v))"
proof -
  have le: "nat \<bar>v\<bar> \<le> 2 ^ 53" using assms by (simp add: nat_le_iff)
  then have r: "round_to_double (nat \<bar>v\<bar>) = nat \<bar>v\<bar>" by (rule round_to_double_exact)
  have "(2::nat) ^ 53 < 2 ^ 1024" by simp
  with le have lt: "\<not> 2 ^ 1024 \<le> nat \<bar>v\<bar>" by linarith
  have "sgn v * int (nat \<bar>v\<bar>) = v" by (simp add: mult_sgn_abs)
  then show ?thesis using lt by (simp add: float_of_int_def r)
qed


section \<open>What the transform leaves at each position\<close>

lemma floatify_isinstance_int:
  "floatify v = Inr v' \<Longrightarrow> isinstance_int v' = isinstance_int v"
  by (cases v) (auto split: sum.splits)

lemma floatify_is_container:
  "floatify v = Inr v' \<Longrightarrow> is_container v' = is_container v"
  by (cases v) (auto split: sum.splits)

lemma floatify_leaf:
  "\<not> is_container v \<Longrightarrow> floatify v = Inr v"
  by (cases v) simp_all

lemma float_of_leaf:
  "isinstance_int v \<Longrightarrow> float_of v = Inr v' \<Longrightarrow> \<exists>x. v' = JFloat x"
  by (cases v) (auto split: sum.splits)

text \<open>What one pass over the entries of an object does to the entry of a key.\<close>

lemma floatify_items_map_of:
  assumes "floatify_items kvs = Inr kvs'" and "map_of kvs k = Some c"
  shows "\<exists>c'. map_of kvs' k = Some c' \<and>
           (if k \<in> set target_keys \<and> isinstance_int c then float_of c else floatify c) = Inr c'"
  using assms
proof (induction kvs arbitrary: kvs')
  case Nil
  then show ?case by simp
next
  case (Cons kv kvs)
  obtain k0 v0 where kv: "kv = (k0, v0)" by (cases kv)
  from Cons.prems(1) obtain v0' rest where
    v0': "(if k0 \<in> set target_keys \<and> isinstance_int v0 then float_of v0 else floatify v0) = Inr v0'"
    and rest: "floatify_items kvs = Inr rest" and kvs': "kvs' = (k0, v0') # rest"
    unfolding kv by (auto split: sum.splits)
  show ?case
  proof (cases "k = k0")
    case True
    then have "c = v0" using Cons.prems(2) kv by simp
    then show ?thesis using True v0' kvs' by (auto split: if_splits)
  next
    case False
    then have "map_of kvs k = Some c" using Cons.prems(2) kv by simp
    from Cons.IH [OF rest this] show ?thesis using False kvs' by simp
  qed
qed

lemma floatify_elems_nth:
  assumes "floatify_elems xs = Inr xs'"
  shows "length xs' = length xs \<and> (\<forall>i < length xs. floatify (xs ! i) = Inr (xs' ! i))"
  using assms
proof (induction xs arbitrary: xs')
  case Nil
  then show ?case by simp
next
  case (Cons x xs)
  from Cons.prems obtain x' rest where
    x': "floatify x = Inr x'" and rest: "floatify_elems xs = Inr rest" and xs': "xs' = x' # rest"
    by (auto split: sum.splits)
  from Cons.IH [OF rest] show ?case using x' xs' by (auto simp add: nth_Cons split: nat.splits)
qed

lemma lookup_path_nonempty_container:
  "lookup_path c (s # p) = Some v \<Longrightarrow> is_container c"
  by (cases c; cases s) simp_all

lemma floatify_lookup_path:
  assumes "floatify d = Inr d'" and "lookup_path d p = Some v"
  shows "\<exists>v'. lookup_path d' p = Some v' \<and> convert_at p v = Inr v'"
  using assms
proof (induction p arbitrary: d d')
  case Nil
  then show ?case by (simp add: convert_at_def)
next
  case (Cons s p)
  have tail: "\<exists>v'. lookup_path c' p = Some v' \<and> convert_at (s # p) v = Inr v'"
    if c: "lookup_path c p = Some v"
      and c': "(if (\<exists>k \<in> set target_keys. s = Key k) \<and> isinstance_int c then float_of c else floatify c) = Inr c'"
    for c c'
  proof (cases p)
    case Nil
    then show ?thesis using c c' by (auto simp add: convert_at_def split: if_splits)
  next
    case (Cons s' p')
    then have "is_container c" using c lookup_path_nonempty_container by blast
    then have "\<not> isinstance_int c" by (cases c) simp_all
    then have "floatify c = Inr c'" using c' by simp
    from Cons.IH [OF this c] show ?thesis using Cons by (simp add: convert_at_def)
  qed
  show ?case
  proof (cases d)
    case (JObject kvs)
    then obtain k where s: "s = Key k" using Cons.prems(2) by (cases s) simp_all
    from Cons.prems(2) obtain c where m: "map_of kvs k = Some c" and c: "lookup_path c p = Some v"
      unfolding JObject s by (auto split: option.splits)
    from Cons.prems(1) obtain kvs' where f: "floatify_items kvs = Inr kvs'" and d': "d' = JObject kvs'"
      unfolding JObject by (auto split: sum.splits)
    from floatify_items_map_of [OF f m] obtain c' where
      m': "map_of kvs' k = Some c'"
      and c': "(if k \<in> set target_keys \<and> isinstance_int c then float_of c else floatify c) = Inr c'"
      by blast
    from c' have "(if (\<exists>k' \<in> set target_keys. s = Key k') \<and> isinstance_int c then float_of c else floatify c) = Inr c'"
      by (simp add: s)
    from tail [OF c this] show ?thesis by (simp add: d' s m')
  next
    case (JArray xs)
    then obtain i where s: "s = Index i" using Cons.prems(2) by (cases s) simp_all
    from Cons.prems(2) have i: "i < length xs" and c: "lookup_path (xs ! i) p = Some v"
      unfolding JArray s by (auto split: if_splits)
    from Cons.prems(1) obtain xs' where f: "floatify_elems xs = Inr xs'" and d': "d' = JArray xs'"
      unfolding JArray by (auto split: sum.splits)
    from floatify_elems_nth [OF f] i have l: "length xs' = length xs" and e: "floatify (xs ! i) = Inr (xs' ! i)"
      by simp_all
    from e have "(if (\<exists>k' \<in> set target_keys. s = Key k') \<and> isinstance_int (xs ! i) then float_of (xs ! i) else floatify (xs ! i)) = Inr (xs' ! i)"
      by (simp add: s)
    from tail [OF c this] show ?thesis using i l by (simp add: d' s)
  qed (use Cons.prems(2) in simp_all)
qed

section \<open>Integers under target keys\<close>

text \<open>
  Claim C1.  Let the transform return on a document.  At every position of the document
  that is reached through an object key \<open>K\<close> of the target set and holds an integer
  \<open>V\<close>, at any depth, the output holds the float \<open>float(V)\<close>, the double nearest to
  \<open>V\<close>; it has the value of \<open>V\<close> whenever \<open>\<bar>V\<bar> \<le> 2 ^ 53\<close>.
\<close>

theorem floatify_target_int:
  assumes "floatify d = Inr d'"
    and "lookup_path d (p @ [Key K]) = Some (JInt V)"
    and "K \<in> set target_keys"
  shows "\<exists>x. float_of_int V = Inr x \<and> lookup_path d' (p @ [Key K]) = Some (JFloat x) \<and>
           (\<bar>V\<bar> \<le> 2 ^ 53 \<longrightarrow> x = Finite (of_int V))"
proof -
  from floatify_lookup_path [OF assms(1,2)] obtain v' where
    l: "lookup_path d' (p @ [Key K]) = Some v'" and c: "convert_at (p @ [Key K]) (JInt V) = Inr v'"
    by blast
  from c assms(3) have "float_of (JInt V) = Inr v'" by (simp add: convert_at_def)
  then obtain x where x: "float_of_int V = Inr x" and v': "v' = JFloat x"
    by (auto split: sum.splits)
  have "x = Finite (of_int V)" if "\<bar>V\<bar> \<le> 2 ^ 53"
    using float_of_int_exact [OF that] x by simp
  then show ?thesis using x l v' by blast
qed

text \<open>
  Scenarios 1 and 2 of the specification, and the theorem at the nested \<open>w\<close> of
  scenario 2.
\<close>

theorem floatify_target_int_witness:
  "floatify (JObject [(''ip'', JInt 0), (''op'', JInt 100), (''fr'', JInt 30), (''w'', JInt 1920), (''h'', JInt 1080)])
     = Inr (JObject [(''ip'', JFloat (Finite 0)), (''op'', JFloat (Finite 100)), (''fr'', JFloat (Finite 30)),
                     (''w'', JFloat (Finite 1920)), (''h'', JFloat (Finite 1080))])
   \<and> floatify (JObject [(''layers'', JArray [JObject [(''st'', JInt 5), (''w'', JInt 200)], JObject [(''st'', JInt 10)]])])
     = Inr (JObject [(''layers'', JArray [JObject [(''st'', JFloat (Finite 5)), (''w'', JFloat (Finite 200))],
                                          JObject [(''st'', JFloat (Finite 10))]])])
   \<and> lookup_path (JObject [(''layers'', JArray [JObject [(''st'', JFloat (Finite 5)), (''w'', JFloat (Finite 200))],
                                          JObject [(''st'', JFloat (Finite 10))]])])
            ([Key ''layers'', Index 0] @ [Key ''w'']) = Some (JFloat (Finite 200))"
proof -
  let ?d = "JObject [(''layers'', JArray [JObject [(''st'', JInt 5), (''w'', JInt 200)], JObject [(''st'', JInt 10)]])]"
  let ?d' = "JObject [(''layers'', JArray [JObject [(''st'', JFloat (Finite 5)), (''w'', JFloat (Finite 200))],
                                          JObject [(''st'', JFloat (Finite 10))]])]"
  have ev: "float_of_int 0 = Inr (Finite 0)" "float_of_int 100 = Inr (Finite 100)"
    "float_of_int 30 = Inr (Finite 30)" "float_of_int 1920 = Inr (Finite 1920)"
    "float_of_int 1080 = Inr (Finite 1080)" "float_of_int 5 = Inr (Finite 5)"
    "float_of_int 200 = Inr (Finite 200)" "float_of_int 10 = Inr (Finite 10)"
    by (simp_all add: float_of_int_exact)
  have s1: "floatify (JObject [(''ip'', JInt 0), (''op'', JInt 100), (''fr'', JInt 30), (''w'', JInt 1920), (''h'', JInt 1080)])
     = Inr (JObject [(''ip'', JFloat (Finite 0)), (''op'', JFloat (Finite 100)), (''fr'', JFloat (Finite 30)),
                     (''w'', JFloat (Finite 1920)), (''h'', JFloat (Finite 1080))])"
    by (simp add: target_keys_def ev)
  have s2: "floatify ?d = Inr ?d'"
    by (simp add: target_keys_def ev)
  have l: "lookup_path ?d ([Key ''layers'', Index 0] @ [Key ''w'']) = Some (JInt 200)"
    by simp
  have k: "''w'' \<in> set target_keys" by (simp add: target_keys_def)
  from floatify_target_int [OF s2 l k] obtain x where
    "lookup_path ?d' ([Key ''layers'', Index 0] @ [Key ''w'']) = Some (JFloat x)"
    and "\<bar>200::int\<bar> \<le> 2 ^ 53 \<longrightarrow> x = Finite (of_int 200)"
    by blast
  then have "lookup_path ?d' ([Key ''layers'', Index 0] @ [Key ''w'']) = Some (JFloat (Finite 200))"
    by simp
  with s1 s2 show ?thesis by simp
qed

text \<open>
  Beyond \<open>2 ^ 53\<close> the float need not have the value of the integer:
  \<open>float(9007199254740993)\<close> is \<open>9007199254740992.0\<close>.
\<close>

theorem floatify_target_int_inexact:
  "floatify (JObject [(''w'', JInt 9007199254740993)])
     = Inr (JObject [(''w'', JFloat (Finite 9007199254740992))])
   \<and> lookup_path (JObject [(''w'', JFloat (Finite 9007199254740992))]) [Key ''w'']
     \<noteq> Some (JFloat (Finite (of_int 9007199254740993)))"
  by (simp add: target_keys_def float_of_int_def round_to_double_def bit_length.simps Let_def)

section \<open>Positions that are only traversed\<close>

text \<open>
  Claim C2.  Let the transform return on a document.  A position that is reached through
  a key outside the target set, or through a target key and holds a string, a float,
  \<open>null\<close>, an array or an object, is traversed and not rewritten: the output holds
  there the transform of the value found, which is the value itself unless it is an
  array or an object.
\<close>

theorem floatify_only_traverses:
  assumes "floatify d = Inr d'"
    and "lookup_path d (p @ [Key k]) = Some v"
    and "k \<notin> set target_keys \<or> \<not> isinstance_int v"
  shows "\<exists>v'. lookup_path d' (p @ [Key k]) = Some v' \<and> floatify v = Inr v' \<and>
           (\<not> is_container v \<longrightarrow> v' = v)"
proof -
  from floatify_lookup_path [OF assms(1,2)] obtain v' where
    l: "lookup_path d' (p @ [Key k]) = Some v'" and c: "convert_at (p @ [Key k]) v = Inr v'"
    by blast
  from c assms(3) have f: "floatify v = Inr v'" by (auto simp add: convert_at_def split: if_splits)
  have "v' = v" if "\<not> is_container v" using floatify_leaf [OF that] f by simp
  then show ?thesis using l f by blast
qed

text \<open>The theorem at the string under the target key \<open>w\<close>.\<close>

theorem floatify_only_traverses_witness:
  "\<exists>v'. lookup_path (JObject [(''name'', JInt 3), (''w'', JString ''wide''), (''h'', JObject [(''w'', JInt 2)])])
            ([] @ [Key ''w'']) = Some v' \<and>
         floatify (JString ''wide'') = Inr v' \<and>
         (\<not> is_container (JString ''wide'') \<longrightarrow> v' = JString ''wide'')"
proof -
  let ?d = "JObject [(''name'', JInt 3), (''w'', JString ''wide''), (''h'', JObject [(''w'', JInt 2)])]"
  let ?d' = "JObject [(''name'', JInt 3), (''w'', JString ''wide''), (''h'', JObject [(''w'', JFloat (Finite 2))])]"
  have ev: "float_of_int 2 = Inr (Finite 2)" by (simp add: float_of_int_exact)
  have f: "floatify ?d = Inr ?d'"
    by (simp add: target_keys_def ev)
  have l: "lookup_path ?d ([] @ [Key ''w'']) = Some (JString ''wide'')" by simp
  have h: "''w'' \<notin> set target_keys \<or> \<not> isinstance_int (JString ''wide'')" by simp
  from floatify_only_traverses [OF f l h] show ?thesis by simp
qed

text \<open>
  A value under a key outside the target set is not unchanged when it is a container
  with a target key inside: the array under \<open>layers\<close> has its nested \<open>st\<close> converted.
\<close>

theorem floatify_changes_inside_containers:
  "floatify (JObject [(''layers'', JArray [JObject [(''st'', JInt 5)]])])
     = Inr (JObject [(''layers'', JArray [JObject [(''st'', JFloat (Finite 5))]])])
   \<and> lookup_path (JObject [(''layers'', JArray [JObject [(''st'', JFloat (Finite 5))]])]) [Key ''layers'']
     \<noteq> lookup_path (JObject [(''layers'', JArray [JObject [(''st'', JInt 5)]])]) [Key ''layers'']"
proof -
  have ev: "float_of_int 5 = Inr (Finite 5)" by (simp add: float_of_int_exact)
  show ?thesis by (simp add: target_keys_def ev)
qed

section \<open>Booleans under target keys\<close>

text \<open>
  Claim C3.  On the input \<open>{"w": true}\<close> the code returns \<open>{"w": 1.0}\<close>:
  \<open>isinstance(True, int)\<close> holds in Python, so the boolean under the target key is
  replaced by \<open>float(True)\<close>.
\<close>

theorem floatify_bool_under_target:
  "floatify (JObject [(''w'', JBool True)]) = Inr (JObject [(''w'', JFloat (Finite 1))])"
  by (simp add: target_keys_def)

section \<open>Idempotence\<close>

lemma floatify_idem_all:
  "floatify d = Inr d' \<Longrightarrow> floatify d' = Inr d'"
  "floatify_items kvs = Inr kvs' \<Longrightarrow> floatify_items kvs' = Inr kvs'"
  "floatify_elems xs = Inr xs' \<Longrightarrow> floatify_elems xs' = Inr xs'"
proof (induction d and kvs and xs arbitrary: d' and kvs' and xs'
    rule: floatify_floatify_items_floatify_elems.induct)
  case (9 k v kvs)
  from "9.prems" obtain v' rest where
    v': "(if k \<in> set target_keys \<and> isinstance_int v then float_of v else floatify v) = Inr v'"
    and rest: "floatify_items kvs = Inr rest" and kvs': "kvs' = (k, v') # rest"
    by (auto split: sum.splits)
  have r: "floatify_items rest = Inr rest" using "9.IH"(2) v' rest by simp
  have "(if k \<in> set target_keys \<and> isinstance_int v' then float_of v' else floatify v') = Inr v'"
  proof (cases "k \<in> set target_keys \<and> isinstance_int v")
    case True
    then obtain x where "v' = JFloat x" using v' float_of_leaf by auto
    then show ?thesis by simp
  next
    case False
    then have f: "floatify v = Inr v'" using v' by (auto split: if_splits)
    from "9.IH"(1) [OF False f] have "floatify v' = Inr v'" .
    moreover have "isinstance_int v' = isinstance_int v"
      using floatify_isinstance_int [OF f] .
    ultimately show ?thesis using False by auto
  qed
  then show ?case using r kvs' by simp
qed (auto split: sum.splits)


text \<open>
  Claim C4.  Applying the transform to its own output returns that output unchanged.
\<close>

theorem floatify_idempotent:
  "floatify d = Inr d' \<Longrightarrow> floatify d' = Inr d'"
  by (rule floatify_idem_all(1))

text \<open>The theorem at a document with integers, a string and a float under target keys.\<close>

theorem floatify_idempotent_witness:
  "floatify (JObject [(''ip'', JInt 0), (''op'', JInt 100), (''w'', JString ''wide''), (''h'', JFloat (Finite 2))])
     = Inr (JObject [(''ip'', JFloat (Finite 0)), (''op'', JFloat (Finite 100)), (''w'', JString ''wide''),
                     (''h'', JFloat (Finite 2))])
   \<and> floatify (JObject [(''ip'', JFloat (Finite 0)), (''op'', JFloat (Finite 100)), (''w'', JString ''wide''),
                     (''h'', JFloat (Finite 2))])
     = Inr (JObject [(''ip'', JFloat (Finite 0)), (''op'', JFloat (Finite 100)), (''w'', JString ''wide''),
                     (''h'', JFloat (Finite 2))])"
proof -
  have ev: "float_of_int 0 = Inr (Finite 0)" "float_of_int 100 = Inr (Finite 100)"
    by (simp_all add: float_of_int_exact)
  have f: "floatify (JObject [(''ip'', JInt 0), (''op'', JInt 100), (''w'', JString ''wide''), (''h'', JFloat (Finite 2))])
     = Inr (JObject [(''ip'', JFloat (Finite 0)), (''op'', JFloat (Finite 100)), (''w'', JString ''wide''),
                     (''h'', JFloat (Finite 2))])"
    by (simp add: target_keys_def ev)
  from floatify_idempotent [OF f] f show ?thesis by (rule conjI [rotated])
qed

section \<open>Keys, not contents, trigger the conversion\<close>

lemma floatify_no_target_all:
  "set (keys_of d) \<inter> set target_keys = {} \<Longrightarrow> floatify d = Inr d"
  "set (keys_of_items kvs) \<inter> set target_keys = {} \<Longrightarrow> floatify_items kvs = Inr kvs"
  "set (keys_of_elems xs) \<inter> set target_keys = {} \<Longrightarrow> floatify_elems xs = Inr xs"
proof (induction d and kvs and xs rule: floatify_floatify_items_floatify_elems.induct)
  case (9 k v kvs)
  from "9.prems" have k: "k \<notin> set target_keys"
    and v: "set (keys_of v) \<inter> set target_keys = {}"
    and kvs: "set (keys_of_items kvs) \<inter> set target_keys = {}"
    by auto
  from k have c: "\<not> (k \<in> set target_keys \<and> isinstance_int v)" by simp
  from "9.IH"(1) [OF c v] have fv: "floatify v = Inr v" .
  have "floatify_items kvs = Inr kvs" using "9.IH"(2) k fv kvs by simp
  then show ?case using fv k by simp
next
  case (11 x xs)
  from "11.prems" have x: "set (keys_of x) \<inter> set target_keys = {}"
    and xs: "set (keys_of_elems xs) \<inter> set target_keys = {}"
    by auto
  from "11.IH"(1) [OF x] have fx: "floatify x = Inr x" .
  from "11.IH"(2) [OF fx xs] show ?case using fx by simp
qed simp_all

text \<open>
  Claim C8.  A document none of whose object keys is in the target set is returned
  unchanged, whatever its strings and other values are.
\<close>

theorem floatify_keyed_on_names:
  "set (keys_of d) \<inter> set target_keys = {} \<Longrightarrow> floatify d = Inr d"
  by (rule floatify_no_target_all(1))


text \<open>Scenario 4 of the specification: the word \<open>op\<close> as a string value.\<close>

theorem floatify_keyed_on_names_witness:
  "set (keys_of (JObject [(''name'', JString ''op'')])) \<inter> set target_keys = {}
   \<and> floatify (JObject [(''name'', JString ''op'')]) = Inr (JObject [(''name'', JString ''op'')])"
proof -
  have h: "set (keys_of (JObject [(''name'', JString ''op'')])) \<inter> set target_keys = {}"
    by (simp add: target_keys_def)
  from floatify_keyed_on_names [OF h] h show ?thesis by (rule conjI [rotated])
qed

section \<open>Termination and failure\<close>





section \<open>Structure\<close>

lemma floatify_converted_all:
  "floatify d = Inr d' \<Longrightarrow> shape d' = shape d \<and> converted_only d d'"
  "floatify_items kvs = Inr kvs' \<Longrightarrow>
     shape_items kvs' = shape_items kvs \<and> converted_only_items kvs kvs'"
  "floatify_elems xs = Inr xs' \<Longrightarrow>
     shape_elems xs' = shape_elems xs \<and> converted_only_elems xs xs'"
proof (induction d and kvs and xs arbitrary: d' and kvs' and xs'
    rule: floatify_floatify_items_floatify_elems.induct)
  case (9 k v kvs)
  from "9.prems" obtain v' rest where
    v': "(if k \<in> set target_keys \<and> isinstance_int v then float_of v else floatify v) = Inr v'"
    and rest: "floatify_items kvs = Inr rest" and kvs': "kvs' = (k, v') # rest"
    by (auto split: sum.splits)
  have r: "shape_items rest = shape_items kvs \<and> converted_only_items kvs rest"
    using "9.IH"(2) v' rest by simp
  have h: "shape v' = shape v \<and>
        (if k \<in> set target_keys
           then (case v of
                   JInt i \<Rightarrow> (case v' of JFloat x \<Rightarrow> float_of_int i = Inr x | _ \<Rightarrow> False)
                 | JBool b \<Rightarrow> \<not> is_container v'
                 | _ \<Rightarrow> converted_only v v')
           else converted_only v v')"
  proof (cases "k \<in> set target_keys \<and> isinstance_int v")
    case True
    then have "float_of v = Inr v'" using v' by simp
    then show ?thesis using True by (cases v) (auto split: sum.splits)
  next
    case False
    then have f: "floatify v = Inr v'" using v' by (auto split: if_splits)
    from "9.IH"(1) [OF False f] have "shape v' = shape v" "converted_only v v'" by simp_all
    then show ?thesis using False by (cases v) auto
  qed
  show ?case unfolding kvs' using h r by simp
qed (auto split: sum.splits)

text \<open>
  Claim C5.  The output of the transform has the shape of its input: the same keys in
  the same order in every object, the same length of every array, the same nesting.
  An integer under a target key has become its \<open>float\<close>; every other value is as it
  was, booleans under target keys apart.
\<close>

theorem floatify_preserves_shape:
  "floatify d = Inr d' \<Longrightarrow> shape d' = shape d \<and> converted_only d d'"
  by (rule floatify_converted_all(1))

text \<open>The theorem at scenario 2 of the specification.\<close>

theorem floatify_preserves_shape_witness:
  "shape (JObject [(''layers'', JArray [JObject [(''st'', JFloat (Finite 5)), (''w'', JFloat (Finite 200))],
                                        JObject [(''st'', JFloat (Finite 10))]])])
     = shape (JObject [(''layers'', JArray [JObject [(''st'', JInt 5), (''w'', JInt 200)], JObject [(''st'', JInt 10)]])])
   \<and> converted_only
       (JObject [(''layers'', JArray [JObject [(''st'', JInt 5), (''w'', JInt 200)], JObject [(''st'', JInt 10)]])])
       (JObject [(''layers'', JArray [JObject [(''st'', JFloat (Finite 5)), (''w'', JFloat (Finite 200))],
                                        JObject [(''st'', JFloat (Finite 10))]])])"
proof -
  have ev: "float_of_int 5 = Inr (Finite 5)" "float_of_int 200 = Inr (Finite 200)"
    "float_of_int 10 = Inr (Finite 10)"
    by (simp_all add: float_of_int_exact)
  have f: "floatify (JObject [(''layers'', JArray [JObject [(''st'', JInt 5), (''w'', JInt 200)], JObject [(''st'', JInt 10)]])])
     = Inr (JObject [(''layers'', JArray [JObject [(''st'', JFloat (Finite 5)), (''w'', JFloat (Finite 200))],
                                          JObject [(''st'', JFloat (Finite 10))]])])"
    by (simp add: target_keys_def ev)
  from floatify_preserves_shape [OF f] show ?thesis .
qed

text \<open>
  More than the type of a leaf can change: \<open>float(9007199254740995)\<close> is
  \<open>9007199254740996.0\<close>, another number.
\<close>

theorem floatify_changes_value_of_large_int:
  "floatify (JObject [(''fr'', JInt 9007199254740995)])
     = Inr (JObject [(''fr'', JFloat (Finite 9007199254740996))])
   \<and> Finite 9007199254740996 \<noteq> Finite (of_int 9007199254740995)"
  by (simp add: target_keys_def float_of_int_def round_to_double_def bit_length.simps Let_def)

section \<open>The recursion limit\<close>

text \<open>
  With enough frames the bounded function is \<open>floatify\<close>; whenever it returns, it had
  enough frames, so what is proved of the documents \<open>floatify\<close> returns holds of the
  documents the bounded function returns.
\<close>

lemma call_depth_pos: "0 < call_depth d"
  by (cases d) simp_all

lemma floatify_limited_enough:
  "call_depth d \<le> n \<Longrightarrow> floatify_limited n d = floatify d"
  "call_depth_items kvs \<le> n \<Longrightarrow> floatify_items_limited n kvs = floatify_items kvs"
  "call_depth_elems xs \<le> n \<Longrightarrow> floatify_elems_limited n xs = floatify_elems xs"
proof (induction n d and n kvs and n xs
    rule: floatify_limited_floatify_items_limited_floatify_elems_limited.induct)
  case (1 v)
  then show ?case using call_depth_pos [of v] by simp
next
  case (10 n k v kvs)
  let ?conv = "k \<in> set target_keys \<and> isinstance_int v"
  from "10.prems" have dv: "\<not> ?conv \<Longrightarrow> call_depth v \<le> n"
    and dk: "call_depth_items kvs \<le> n"
    by (auto split: if_splits)
  have first: "(if ?conv then float_of v else floatify_limited n v)
      = (if ?conv then float_of v else floatify v)"
  proof (cases ?conv)
    case True
    then show ?thesis by simp
  next
    case False
    from "10.IH"(1) [OF False dv [OF False]] show ?thesis by simp
  qed
  show ?case
  proof (cases "if ?conv then float_of v else floatify v")
    case (Inl e)
    then show ?thesis using first by simp
  next
    case (Inr v')
    then have "(if ?conv then float_of v else floatify_limited n v) = Inr v'"
      using first by simp
    from "10.IH"(2) [OF this dk] show ?thesis using first Inr by simp
  qed
next
  case (12 n x xs)
  from "12.prems" have dx: "call_depth x \<le> n" and dxs: "call_depth_elems xs \<le> n"
    by simp_all
  from "12.IH"(1) [OF dx] have first: "floatify_limited n x = floatify x" .
  show ?case
  proof (cases "floatify x")
    case (Inl e)
    then show ?thesis using first by simp
  next
    case (Inr x')
    then have "floatify_limited n x = Inr x'" using first by simp
    from "12.IH"(2) [OF this dxs] show ?thesis using first Inr by simp
  qed
qed simp_all

lemma floatify_limited_returns:
  "floatify_limited n d = Inr d' \<Longrightarrow> call_depth d \<le> n"
  "floatify_items_limited n kvs = Inr kvs' \<Longrightarrow> call_depth_items kvs \<le> n"
  "floatify_elems_limited n xs = Inr xs' \<Longrightarrow> call_depth_elems xs \<le> n"
proof (induction n d and n kvs and n xs arbitrary: d' and kvs' and xs'
    rule: floatify_limited_floatify_items_limited_floatify_elems_limited.induct)
  case (10 n k v kvs)
  let ?conv = "k \<in> set target_keys \<and> isinstance_int v"
  from "10.prems" obtain v' rest where
    v': "(if ?conv then float_of v else floatify_limited n v) = Inr v'"
    and rest: "floatify_items_limited n kvs = Inr rest"
    by (auto split: sum.splits)
  from "10.IH"(2) [OF v' rest] have dk: "call_depth_items kvs \<le> n" .
  have "(if ?conv then 0 else call_depth v) \<le> n"
  proof (cases ?conv)
    case True
    then show ?thesis by simp
  next
    case False
    then have "floatify_limited n v = Inr v'" using v' by (auto split: if_splits)
    from "10.IH"(1) [OF False this] show ?thesis using False by auto
  qed
  then show ?case using dk by simp
next
  case (12 n x xs)
  from "12.prems" obtain x' rest where
    x': "floatify_limited n x = Inr x'" and rest: "floatify_elems_limited n xs = Inr rest"
    by (auto split: sum.splits)
  from "12.IH"(1) [OF x'] "12.IH"(2) [OF x' rest] show ?case by simp
qed (auto split: sum.splits)


lemma floatify_limited_refines:
  "floatify_limited n d = Inr d' \<Longrightarrow> floatify d = Inr d'"
  using floatify_limited_enough(1) [OF floatify_limited_returns(1)] by simp






section \<open>The driver\<close>

text \<open>
  Claim C6.  Whatever the arguments, the file system and the \<open>json\<close> library do, the
  script ends with exit status 0, on success as on failure.  A failure at any step is
  caught and its description is the one line printed: a missing argument, a missing or
  unreadable file, text that is not JSON, an exception of the transform, a file that
  cannot be opened for writing, a write that fails part-way.  Only the last leaves the
  file changed, truncated to what was written; on success the file holds the new text
  and the line printed names the path.
\<close>

theorem main_reports_every_failure:
  "exit_code (main repr frames loads dumps space argv fs) = 0
   \<and> (length argv \<le> 1 \<longrightarrow>
        main repr frames loads dumps space argv fs
          = \<lparr>files = fs, stdout = [describe repr IndexError], exit_code = 0\<rparr>)
   \<and> (fs path = None \<longrightarrow>
        main repr frames loads dumps space (prog # path # rest) fs
          = \<lparr>files = fs, stdout = [describe repr (FileNotFoundError path)], exit_code = 0\<rparr>)
   \<and> (fs path = Some f \<and> \<not> readable f \<longrightarrow>
        main repr frames loads dumps space (prog # path # rest) fs
          = \<lparr>files = fs, stdout = [describe repr (PermissionError path)], exit_code = 0\<rparr>)
   \<and> (fs path = Some f \<and> readable f \<and> loads (content f) = Inl e \<longrightarrow>
        main repr frames loads dumps space (prog # path # rest) fs
          = \<lparr>files = fs, stdout = [describe repr e], exit_code = 0\<rparr>)
   \<and> (fs path = Some f \<and> readable f \<and> loads (content f) = Inr data \<and>
        floatify_limited frames data = Inl e \<longrightarrow>
        main repr frames loads dumps space (prog # path # rest) fs
          = \<lparr>files = fs, stdout = [describe repr e], exit_code = 0\<rparr>)
   \<and> (fs path = Some f \<and> readable f \<and> loads (content f) = Inr data \<and>
        floatify_limited frames data = Inr data' \<and> \<not> writable f \<longrightarrow>
        main repr frames loads dumps space (prog # path # rest) fs
          = \<lparr>files = fs, stdout = [describe repr (PermissionError path)], exit_code = 0\<rparr>)
   \<and> (fs path = Some f \<and> readable f \<and> loads (content f) = Inr data \<and>
        floatify_limited frames data = Inr data' \<and> writable f \<and>
        space = Some c \<and> c < length (dumps data') \<longrightarrow>
        main repr frames loads dumps space (prog # path # rest) fs
          = \<lparr>files = fs(path \<mapsto> f\<lparr>content := take c (dumps data')\<rparr>),
             stdout = [''[Errno 28] No space left on device''], exit_code = 0\<rparr>)
   \<and> (fs path = Some f \<and> readable f \<and> loads (content f) = Inr data \<and>
        floatify_limited frames data = Inr data' \<and> writable f \<and>
        (space = None \<or> (\<exists>c. space = Some c \<and> length (dumps data') \<le> c)) \<longrightarrow>
        main repr frames loads dumps space (prog # path # rest) fs
          = \<lparr>files = fs(path \<mapsto> f\<lparr>content := dumps data'\<rparr>),
             stdout = [''Processed '' @ path], exit_code = 0\<rparr>)"
proof (intro conjI impI)
  show "exit_code (main repr frames loads dumps space argv fs) = 0"
    by (cases "try_body frames loads dumps space argv fs")
       (auto simp add: main_def split: sum.splits)
next
  assume "length argv \<le> 1"
  then show "main repr frames loads dumps space argv fs
      = \<lparr>files = fs, stdout = [describe repr IndexError], exit_code = 0\<rparr>"
    by (simp add: main_def try_body_def argv1_def)
next
  assume "fs path = None"
  then show "main repr frames loads dumps space (prog # path # rest) fs
      = \<lparr>files = fs, stdout = [describe repr (FileNotFoundError path)], exit_code = 0\<rparr>"
    by (simp add: main_def try_body_def argv1_def open_read_def)
next
  assume "fs path = Some f \<and> \<not> readable f"
  then show "main repr frames loads dumps space (prog # path # rest) fs
      = \<lparr>files = fs, stdout = [describe repr (PermissionError path)], exit_code = 0\<rparr>"
    by (simp add: main_def try_body_def argv1_def open_read_def)
next
  assume "fs path = Some f \<and> readable f \<and> loads (content f) = Inl e"
  then show "main repr frames loads dumps space (prog # path # rest) fs
      = \<lparr>files = fs, stdout = [describe repr e], exit_code = 0\<rparr>"
    by (simp add: main_def try_body_def argv1_def open_read_def)
next
  assume "fs path = Some f \<and> readable f \<and> loads (content f) = Inr data \<and>
        floatify_limited frames data = Inl e"
  then show "main repr frames loads dumps space (prog # path # rest) fs
      = \<lparr>files = fs, stdout = [describe repr e], exit_code = 0\<rparr>"
    by (simp add: main_def try_body_def argv1_def open_read_def)
next
  assume "fs path = Some f \<and> readable f \<and> loads (content f) = Inr data \<and>
        floatify_limited frames data = Inr data' \<and> \<not> writable f"
  then show "main repr frames loads dumps space (prog # path # rest) fs
      = \<lparr>files = fs, stdout = [describe repr (PermissionError path)], exit_code = 0\<rparr>"
    by (simp add: main_def try_body_def argv1_def open_read_def open_write_def)
next
  assume "fs path = Some f \<and> readable f \<and> loads (content f) = Inr data \<and>
        floatify_limited frames data = Inr data' \<and> writable f \<and>
        space = Some c \<and> c < length (dumps data')"
  then show "main repr frames loads dumps space (prog # path # rest) fs
      = \<lparr>files = fs(path \<mapsto> f\<lparr>content := take c (dumps data')\<rparr>),
         stdout = [''[Errno 28] No space left on device''], exit_code = 0\<rparr>"
    by (simp add: main_def try_body_def argv1_def open_read_def open_write_def write_text_def)
next
  assume "fs path = Some f \<and> readable f \<and> loads (content f) = Inr data \<and>
        floatify_limited frames data = Inr data' \<and> writable f \<and>
        (space = None \<or> (\<exists>c. space = Some c \<and> length (dumps data') \<le> c))"
  then show "main repr frames loads dumps space (prog # path # rest) fs
      = \<lparr>files = fs(path \<mapsto> f\<lparr>content := dumps data'\<rparr>),
         stdout = [''Processed '' @ path], exit_code = 0\<rparr>"
    by (auto simp add: main_def try_body_def argv1_def open_read_def open_write_def write_text_def)
qed


text \<open>
  The theorem at three runs: no argument, a file that is not writable, and a write that
  fails for lack of space.
\<close>

theorem main_reports_every_failure_witness:
  "main (\<lambda>p. [CHR 0x27] @ p @ [CHR 0x27]) 999 (\<lambda>s. Inr (JArray [])) (\<lambda>d. ''[]'') None
        [''floatify.py''] Map.empty
     = \<lparr>files = Map.empty, stdout = [''list index out of range''], exit_code = 0\<rparr>
   \<and> main (\<lambda>p. [CHR 0x27] @ p @ [CHR 0x27]) 999 (\<lambda>s. Inr (JArray [])) (\<lambda>d. ''[]'') None
        [''floatify.py'', ''anim.json'']
        [''anim.json'' \<mapsto> \<lparr>content = ''[]'', readable = True, writable = False\<rparr>]
     = \<lparr>files = [''anim.json'' \<mapsto> \<lparr>content = ''[]'', readable = True, writable = False\<rparr>],
        stdout = [''[Errno 13] Permission denied: '' @ [CHR 0x27] @ ''anim.json'' @ [CHR 0x27]],
        exit_code = 0\<rparr>
   \<and> main (\<lambda>p. [CHR 0x27] @ p @ [CHR 0x27]) 999 (\<lambda>s. Inr (JArray [])) (\<lambda>d. ''[]'') (Some 0)
        [''floatify.py'', ''anim.json'']
        [''anim.json'' \<mapsto> \<lparr>content = ''[]'', readable = True, writable = True\<rparr>]
     = \<lparr>files = [''anim.json'' \<mapsto> \<lparr>content = [], readable = True, writable = True\<rparr>],
        stdout = [''[Errno 28] No space left on device''],
        exit_code = 0\<rparr>"
proof -
  let ?repr = "\<lambda>p::string. [CHR 0x27] @ p @ [CHR 0x27]"
  let ?loads = "\<lambda>s::string. (Inr (JArray []) :: error + json)"
  let ?dumps = "\<lambda>d::json. ''[]''"
  let ?ro = "\<lparr>content = ''[]'', readable = True, writable = False\<rparr>"
  let ?rw = "\<lparr>content = ''[]'', readable = True, writable = True\<rparr>"
  have t: "floatify_limited 999 (JArray []) = Inr (JArray [])"
    using floatify_limited_enough(1) [of "JArray []" 999] by simp
  have a: "main ?repr 999 ?loads ?dumps None [''floatify.py''] Map.empty
     = \<lparr>files = Map.empty, stdout = [''list index out of range''], exit_code = 0\<rparr>"
    using main_reports_every_failure [where repr = ?repr and frames = 999 and loads = ?loads
        and dumps = ?dumps and space = None and argv = "[''floatify.py'']"
        and fs = "Map.empty :: filesystem"]
    by simp
  have b: "main ?repr 999 ?loads ?dumps None [''floatify.py'', ''anim.json''] [''anim.json'' \<mapsto> ?ro]
     = \<lparr>files = [''anim.json'' \<mapsto> ?ro],
        stdout = [''[Errno 13] Permission denied: '' @ [CHR 0x27] @ ''anim.json'' @ [CHR 0x27]],
        exit_code = 0\<rparr>"
    using main_reports_every_failure [where repr = ?repr and frames = 999 and loads = ?loads
        and dumps = ?dumps and space = None and fs = "[''anim.json'' \<mapsto> ?ro]"
        and path = "''anim.json''" and prog = "''floatify.py''" and rest = "[]"
        and f = ?ro and data = "JArray []" and data' = "JArray []"] t
    by simp
  have c: "main ?repr 999 ?loads ?dumps (Some 0) [''floatify.py'', ''anim.json''] [''anim.json'' \<mapsto> ?rw]
     = \<lparr>files = [''anim.json'' \<mapsto> \<lparr>content = [], readable = True, writable = True\<rparr>],
        stdout = [''[Errno 28] No space left on device''],
        exit_code = 0\<rparr>"
    using main_reports_every_failure [where repr = ?repr and frames = 999 and loads = ?loads
        and dumps = ?dumps and space = "Some 0" and fs = "[''anim.json'' \<mapsto> ?rw]"
        and path = "''anim.json''" and prog = "''floatify.py''" and rest = "[]"
        and f = ?rw and data = "JArray []" and data' = "JArray []" and c = 0] t
    by simp
  show ?thesis by (intro conjI a b c)
qed

text \<open>
  Claim C7.  Run on a path where no file exists, the script prints the error of the
  failed \<open>open\<close> and leaves the file system as it was: nothing is created, nothing is
  modified.
\<close>

theorem main_missing_file:
  "fs path = None \<Longrightarrow>
   main repr frames loads dumps space (prog # path # rest) fs
     = \<lparr>files = fs, stdout = [describe repr (FileNotFoundError path)], exit_code = 0\<rparr>"
  by (simp add: main_def try_body_def argv1_def open_read_def)

text \<open>The theorem on an empty file system.\<close>

theorem main_missing_file_witness:
  "(Map.empty :: filesystem) ''anim.json'' = None \<and>
   main (\<lambda>p. [CHR 0x27] @ p @ [CHR 0x27]) 999 (\<lambda>s. Inl (JSONDecodeError ''Expecting value'')) (\<lambda>d. [])
        None [''floatify.py'', ''anim.json''] Map.empty
     = \<lparr>files = Map.empty,
        stdout = [''[Errno 2] No such file or directory: '' @ [CHR 0x27] @ ''anim.json'' @ [CHR 0x27]],
        exit_code = 0\<rparr>"
proof -
  have h: "(Map.empty :: filesystem) ''anim.json'' = None" by simp
  from main_missing_file [where fs = "Map.empty :: filesystem" and path = "''anim.json''"
      and repr = "\<lambda>p. [CHR 0x27] @ p @ [CHR 0x27]" and frames = 999
      and loads = "\<lambda>s. Inl (JSONDecodeError ''Expecting value'')" and dumps = "\<lambda>d. []"
      and space = None and prog = "''floatify.py''" and rest = "[]", OF h]
  show ?thesis by simp
qed



end
